theory Spec2Isabelle
  imports Main "HOL-Library.Multiset"
begin

section \<open>The contract version gate of \<open>scripts/contracts-check-diff.mjs\<close>\<close>

text \<open>
  The script classifies every changed schema file (\<open>classify\<close>), folds the
  classifications into the highest required severity (\<open>rank\<close>, \<open>bumpFrom\<close>),
  compares the old and the new version string of the contracts package (\<open>parse\<close>,
  \<open>cmp\<close>) and accepts or rejects the change (the closing block of four \<open>if\<close>
  statements).  Each function below follows the source function of the same name.
\<close>

subsection \<open>Severities and their fold\<close>

text \<open>
  The source passes severities around as the strings \<open>'none'\<close>, \<open>'patch'\<close>,
  \<open>'minor'\<close> and \<open>'major'\<close>; \<open>rank\<close> is its lookup table
  \<open>{none:0,patch:1,minor:2,major:3}\<close>.
\<close>

datatype severity = Sev_none | Sev_patch | Sev_minor | Sev_major

fun rank :: "severity \<Rightarrow> nat" where
  "rank Sev_none = 0"
| "rank Sev_patch = 1"
| "rank Sev_minor = 2"
| "rank Sev_major = 3"

definition bumpFrom :: "severity \<Rightarrow> severity \<Rightarrow> severity" where
  "bumpFrom a b = (if rank a \<ge> rank b then a else b)"

text \<open>
  The loop \<open>let required='none'; for (...) required = bumpFrom(required, c)\<close>
  over the classifications of the changed schema files, in the order of the files.
\<close>

definition aggregate :: "severity list \<Rightarrow> severity" where
  "aggregate cs = foldl bumpFrom Sev_none cs"

subsection \<open>Version strings\<close>

text \<open>
  A JavaScript number as far as \<open>parse\<close> and \<open>cmp\<close> need it: an integer, or
  \<open>NaN\<close>, which compares false with everything, itself included.
\<close>

datatype jsnum = NaN | Num int

fun js_gt :: "jsnum \<Rightarrow> jsnum \<Rightarrow> bool" where
  "js_gt (Num a) (Num b) = (a > b)"
| "js_gt _ _ = False"

fun js_strict_eq :: "jsnum \<Rightarrow> jsnum \<Rightarrow> bool" where
  "js_strict_eq (Num a) (Num b) = (a = b)"
| "js_strict_eq _ _ = False"

definition is_digit :: "char \<Rightarrow> bool" where
  "is_digit c = ((48::nat) \<le> of_char c \<and> (of_char c :: nat) \<le> 57)"

definition digit_val :: "char \<Rightarrow> int" where
  "digit_val c = int (of_char c) - 48"

text \<open>
  The unary plus of \<open>+m[1]\<close> is \<open>ToNumber\<close> on a string.  A text of decimal digits
  is its value; a text holding any character that no numeric literal has (such as a
  backslash) is \<open>NaN\<close>.  The other numeric forms of JavaScript (signs, fractions,
  exponents, hexadecimal, surrounding blanks, the empty text) never reach this function,
  since every capture of the pattern below starts with a backslash.
\<close>

definition to_number :: "string \<Rightarrow> jsnum" where
  "to_number s =
     (if s \<noteq> [] \<and> list_all is_digit s
      then Num (foldl (\<lambda>acc c. 10 * acc + digit_val c) 0 s)
      else NaN)"

record version =
  ver_M :: jsnum
  ver_m :: jsnum
  ver_p :: jsnum

text \<open>
  The pattern of \<open>parse\<close> is the regular expression literal
  \<^verbatim>\<open>/^(\\d+)\\.(\\d+)\\.(\\d+)/\<close>: in the source file every backslash is
  doubled.  Inside a regular expression literal two backslashes are one escaped backslash,
  so \<^verbatim>\<open>\\d+\<close> stands for a backslash followed by one or more letters \<open>d\<close>, and
  \<^verbatim>\<open>\\.\<close> for a backslash followed by any one character that is not a line
  terminator.  \<open>re_group\<close> is one capture group, \<open>re_sep\<close> what stands between two
  groups.  The repetition is greedy; since what follows a group is a backslash or the
  end of the pattern, taking every \<open>d\<close> is the only way the match can go on.
\<close>

definition backslash :: char where
  "backslash = CHR 0x5C"

text \<open>
  Line feed and carriage return; the two Unicode line separators lie outside the
  eight-bit characters of \<open>string\<close>.
\<close>

definition line_terminator :: "char \<Rightarrow> bool" where
  "line_terminator c = (c = CHR 0x0A \<or> c = CHR 0x0D)"

fun re_group :: "string \<Rightarrow> (string \<times> string) option" where
  "re_group [] = None"
| "re_group (c # cs) =
     (let ds = takeWhile (\<lambda>x. x = CHR ''d'') cs in
      if c = backslash \<and> ds \<noteq> []
      then Some (c # ds, dropWhile (\<lambda>x. x = CHR ''d'') cs)
      else None)"

fun re_sep :: "string \<Rightarrow> string option" where
  "re_sep (b # c # cs) = (if b = backslash \<and> \<not> line_terminator c then Some cs else None)"
| "re_sep _ = None"

text \<open>\<open>String(v).match(...)\<close>: the three captures, or \<open>None\<close> for \<open>null\<close>.\<close>

definition re_match :: "string \<Rightarrow> (string \<times> string \<times> string) option" where
  "re_match v =
     (case re_group v of None \<Rightarrow> None
      | Some (g1, r1) \<Rightarrow>
     (case re_sep r1 of None \<Rightarrow> None
      | Some r2 \<Rightarrow>
     (case re_group r2 of None \<Rightarrow> None
      | Some (g2, r3) \<Rightarrow>
     (case re_sep r3 of None \<Rightarrow> None
      | Some r4 \<Rightarrow>
     (case re_group r4 of None \<Rightarrow> None
      | Some (g3, r5) \<Rightarrow> Some (g1, g2, g3))))))"

definition parse :: "string \<Rightarrow> version option" where
  "parse v =
     (case re_match v of
        None \<Rightarrow> None
      | Some (g1, g2, g3) \<Rightarrow>
          Some \<lparr>ver_M = to_number g1, ver_m = to_number g2, ver_p = to_number g3\<rparr>)"

datatype bump = Bump_invalid | Bump_major | Bump_minor | Bump_patch | Bump_none_or_down

definition cmp :: "string \<Rightarrow> string \<Rightarrow> bump" where
  "cmp oldV newV =
     (case (parse oldV, parse newV) of
        (Some o', Some n) \<Rightarrow>
          if js_gt (ver_M n) (ver_M o') then Bump_major
          else if js_strict_eq (ver_M n) (ver_M o') \<and> js_gt (ver_m n) (ver_m o') then Bump_minor
          else if js_strict_eq (ver_M n) (ver_M o') \<and> js_strict_eq (ver_m n) (ver_m o')
                  \<and> js_gt (ver_p n) (ver_p o') then Bump_patch
          else Bump_none_or_down
      | _ \<Rightarrow> Bump_invalid)"

subsection \<open>The decision block\<close>

text \<open>
  What the closing block writes and how the process ends.  \<open>ok\<close> and \<open>fail\<close>
  print their message behind a mark and leave the process, with status 0 and 1; the
  marks are the UTF-8 bytes the source file has.
\<close>

datatype console = Log string | Warn string | Error string

record outcome =
  printed :: "console list"
  exit_status :: nat

definition check_mark :: string where
  "check_mark = [CHR 0xE2, CHR 0x9C, CHR 0x85, CHR '' '']"

definition cross_mark :: string where
  "cross_mark = [CHR 0xE2, CHR 0x9D, CHR 0x8C, CHR '' '']"

definition warning_sign :: string where
  "warning_sign = [CHR 0xE2, CHR 0x9A, CHR 0xA0, CHR 0xEF, CHR 0xB8, CHR 0x8F, CHR '' '']"

definition fail :: "console list \<Rightarrow> string \<Rightarrow> outcome" where
  "fail earlier m = \<lparr>printed = earlier @ [Error (cross_mark @ m)], exit_status = 1\<rparr>"

definition ok :: "console list \<Rightarrow> string \<Rightarrow> outcome" where
  "ok earlier m = \<lparr>printed = earlier @ [Log (check_mark @ m)], exit_status = 0\<rparr>"

text \<open>
  The four \<open>if (required === ...)\<close> statements in their order.  Each of them ends in
  \<open>ok\<close> or \<open>fail\<close>, so none is followed by the next; \<open>None\<close> stands for
  running past all four without leaving the process.
\<close>

definition decide :: "severity \<Rightarrow> bump \<Rightarrow> outcome option" where
  "decide req bmp =
     (if req = Sev_none then
        Some (ok (if bmp \<noteq> Bump_none_or_down \<and> bmp \<noteq> Bump_patch
                  then [Warn (warning_sign @ ''non-patch bump without schema change'')]
                  else [])
                 ''no schema changes'')
      else if req = Sev_patch then
        Some (if bmp \<in> set [Bump_patch, Bump_minor, Bump_major]
              then ok [] ''patch ok'' else fail [] ''patch change needs version bump'')
      else if req = Sev_minor then
        Some (if bmp \<in> set [Bump_minor, Bump_major]
              then ok [] ''minor ok'' else fail [] ''additive change needs minor bump'')
      else if req = Sev_major then
        Some (if bmp = Bump_major
              then ok [] ''major ok'' else fail [] ''breaking change needs MAJOR bump'')
      else None)"

subsection \<open>Schema documents\<close>

text \<open>
  A parsed JSON value.  The members of an object are listed in the order in which
  \<open>Object.keys\<close> and \<open>JSON.stringify\<close> go through them.  A number is a
  double.  A finite one is held by the text that \<open>JSON.stringify\<close> prints for it,
  which names the double: number literals that \<open>JSON.parse\<close> rounds to the same
  double are the same value here, and so are the two zeros, which print alike and are
  the same element to a \<open>Set\<close>.  A literal too large for a double parses to an
  infinity (\<open>JInfinity\<close>, with \<open>True\<close> for the negative one).
\<close>

datatype json =
    JNull
  | JBool bool
  | JNum string
  | JInfinity bool
  | JStr string
  | JArr "json list"
  | JObj "(string \<times> json) list"

text \<open>
  A schema document is an object; \<open>classify\<close> reads its members \<open>properties\<close>
  (an object from field names to field schemas, which are any JSON values) and
  \<open>required\<close> (an array of field names) and nothing else.  \<open>None\<close> is a member
  that is missing or \<open>null\<close>: the source reads both through \<open>??\<close>, as
  \<open>props_of\<close> and \<open>required_of\<close> do.  Documents whose \<open>properties\<close> is not
  an object or whose \<open>required\<close> is not an array of strings are outside this type.
\<close>

record schema_doc =
  doc_properties :: "(string \<times> json) list option"
  doc_required :: "string list option"

definition props_of :: "schema_doc \<Rightarrow> (string \<times> json) list" where
  "props_of d = (case doc_properties d of None \<Rightarrow> [] | Some ps \<Rightarrow> ps)"

definition required_of :: "schema_doc \<Rightarrow> string list" where
  "required_of d = (case doc_required d of None \<Rightarrow> [] | Some rs \<Rightarrow> rs)"

subsubsection \<open>\<open>JSON.stringify\<close>\<close>

definition hex_digit :: "nat \<Rightarrow> char" where
  "hex_digit n = (if n < 10 then char_of (48 + n) else char_of (87 + n))"

definition escape_char :: "char \<Rightarrow> string" where
  "escape_char c =
     (if c = CHR 0x22 then [backslash, CHR 0x22]
      else if c = backslash then [backslash, backslash]
      else if c = CHR 0x08 then [backslash, CHR ''b'']
      else if c = CHR 0x09 then [backslash, CHR ''t'']
      else if c = CHR 0x0A then [backslash, CHR ''n'']
      else if c = CHR 0x0C then [backslash, CHR ''f'']
      else if c = CHR 0x0D then [backslash, CHR ''r'']
      else if (of_char c :: nat) < 32
        then [backslash, CHR ''u'', CHR ''0'', CHR ''0'',
              hex_digit (of_char c div 16), hex_digit (of_char c mod 16)]
      else [c])"

definition quote :: "string \<Rightarrow> string" where
  "quote s = [CHR 0x22] @ concat (map escape_char s) @ [CHR 0x22]"

fun join_comma :: "string list \<Rightarrow> string" where
  "join_comma [] = []"
| "join_comma [x] = x"
| "join_comma (x # y # ys) = x @ CHR '','' # join_comma (y # ys)"

fun stringify :: "json \<Rightarrow> string" where
  "stringify JNull = ''null''"
| "stringify (JBool b) = (if b then ''true'' else ''false'')"
| "stringify (JNum t) = t"
| "stringify (JInfinity _) = ''null''"
| "stringify (JStr s) = quote s"
| "stringify (JArr xs) = CHR ''['' # join_comma (map stringify xs) @ '']''"
| "stringify (JObj kvs) =
     CHR ''{'' # join_comma (map (\<lambda>kv. quote (fst kv) @ CHR '':'' # stringify (snd kv)) kvs) @ ''}''"

subsubsection \<open>Property access\<close>

text \<open>
  \<open>properties\<close> is a plain object, and so is the \<open>{}\<close> that stands in for a
  missing one: beside its own members it inherits those of \<open>Object.prototype\<close>.
  The \<open>in\<close> operator and the index \<open>oP[k]\<close> both look through the prototype.
  The inherited members are eleven functions and the accessor \<open>__proto__\<close>, whose
  value is \<open>Object.prototype\<close> itself.
\<close>

definition object_prototype_functions :: "string list" where
  "object_prototype_functions =
     [''constructor'', ''__defineGetter__'', ''__defineSetter__'', ''hasOwnProperty'',
      ''__lookupGetter__'', ''__lookupSetter__'', ''isPrototypeOf'',
      ''propertyIsEnumerable'', ''toString'', ''valueOf'', ''toLocaleString'']"

definition inherited :: "string \<Rightarrow> bool" where
  "inherited k = (k = ''__proto__'' \<or> k \<in> set object_prototype_functions)"

text \<open>What an index or a member access can give: a JSON value or one of the inherited ones.\<close>

datatype jsval = Undefined | Val json | Function | Object_prototype

definition keys :: "(string \<times> json) list \<Rightarrow> string list" where
  "keys obj = map fst obj"

definition has_in :: "(string \<times> json) list \<Rightarrow> string \<Rightarrow> bool" where
  "has_in obj k = (k \<in> set (keys obj) \<or> inherited k)"

definition get_prop :: "(string \<times> json) list \<Rightarrow> string \<Rightarrow> jsval" where
  "get_prop obj k =
     (case map_of obj k of
        Some v \<Rightarrow> Val v
      | None \<Rightarrow>
          if k = ''__proto__'' then Object_prototype
          else if k \<in> set object_prototype_functions then Function
          else Undefined)"

text \<open>
  \<open>JSON.stringify\<close> gives \<open>undefined\<close> (here \<open>None\<close>) for a function and for
  \<open>undefined\<close>; \<open>Object.prototype\<close> has no enumerable member of its own.
\<close>

fun json_stringify :: "jsval \<Rightarrow> string option" where
  "json_stringify (Val v) = Some (stringify v)"
| "json_stringify Object_prototype = Some ''{}''"
| "json_stringify Function = None"
| "json_stringify Undefined = None"

text \<open>
  What the run can throw: a \<open>TypeError\<close> from a member access on \<open>null\<close>, the
  error of \<open>fs.readFileSync\<close> for a file that cannot be read, and the
  \<open>SyntaxError\<close> of \<open>JSON.parse\<close>.
\<close>

datatype error = TypeError | ReadError | SyntaxError

text \<open>
  The member access \<open>x.enum\<close>.  On \<open>null\<close> and \<open>undefined\<close> it throws; an
  object gives its member; an array, a string, a number, a boolean and the inherited
  values have no member of that name.
\<close>

fun get_enum :: "jsval \<Rightarrow> error + jsval" where
  "get_enum (Val JNull) = Inl TypeError"
| "get_enum Undefined = Inl TypeError"
| "get_enum (Val (JObj fs)) = Inr (get_prop fs ''enum'')"
| "get_enum _ = Inr Undefined"

subsubsection \<open>Sets\<close>

text \<open>
  A \<open>Set\<close> is the list of its elements in insertion order.  It compares by
  \<open>SameValueZero\<close>: null, booleans, numbers and strings by value, arrays and objects
  by identity, and no two arrays or objects that \<open>JSON.parse\<close> built are the same one.
\<close>

fun same_value_zero :: "json \<Rightarrow> json \<Rightarrow> bool" where
  "same_value_zero (JArr _) _ = False"
| "same_value_zero (JObj _) _ = False"
| "same_value_zero a b = (a = b)"

text \<open>The values that are compared by value: everything but arrays and objects.\<close>

fun literal :: "json \<Rightarrow> bool" where
  "literal (JArr _) = False"
| "literal (JObj _) = False"
| "literal _ = True"

definition set_has :: "json list \<Rightarrow> json \<Rightarrow> bool" where
  "set_has s v = list_ex (same_value_zero v) s"

definition set_add :: "json list \<Rightarrow> json \<Rightarrow> json list" where
  "set_add s v = (if set_has s v then s else s @ [v])"

definition new_Set :: "json list \<Rightarrow> json list" where
  "new_Set xs = foldl set_add [] xs"

text \<open>
  \<open>Array.isArray(x.enum) ? new Set(x.enum) : null\<close>, with \<open>None\<close> for \<open>null\<close>.
\<close>

definition enum_set :: "jsval \<Rightarrow> error + json list option" where
  "enum_set x =
     (case get_enum x of
        Inl e \<Rightarrow> Inl e
      | Inr (Val (JArr vs)) \<Rightarrow> Inr (Some (new_Set vs))
      | Inr _ \<Rightarrow> Inr None)"

subsection \<open>The classifier\<close>

text \<open>
  The body of the second loop of \<open>classify\<close> for one key \<open>k\<close> of the new
  properties: \<open>Inr True\<close> is \<open>return 'major'\<close>, \<open>Inr False\<close> is going on to the
  next key, \<open>Inl\<close> a thrown error.
\<close>

definition shared_check ::
  "(string \<times> json) list \<Rightarrow> (string \<times> json) list \<Rightarrow> string \<Rightarrow> error + bool" where
  "shared_check oP nP k =
     (if has_in oP k then
        (if json_stringify (get_prop oP k) \<noteq> json_stringify (get_prop nP k) then
           (case enum_set (get_prop oP k) of
              Inl e \<Rightarrow> Inl e
            | Inr oe \<Rightarrow>
           (case enum_set (get_prop nP k) of
              Inl e \<Rightarrow> Inl e
            | Inr ne \<Rightarrow>
           (case (oe, ne) of
              (Some os, Some ns) \<Rightarrow>
                if list_all (set_has ns) os \<and> length ns \<ge> length os then Inr False
                else Inr True
            | _ \<Rightarrow> Inr True)))
         else Inr False)
      else Inr False)"

fun shared_scan ::
  "(string \<times> json) list \<Rightarrow> (string \<times> json) list \<Rightarrow> string list \<Rightarrow> error + bool" where
  "shared_scan oP nP [] = Inr False"
| "shared_scan oP nP (k # ks) =
     (case shared_check oP nP k of
        Inl e \<Rightarrow> Inl e
      | Inr True \<Rightarrow> Inr True
      | Inr False \<Rightarrow> shared_scan oP nP ks)"

text \<open>
  \<open>classify(oldJs, newJs)\<close>; \<open>None\<close> is the \<open>null\<close> that \<open>readJSONAtRef\<close>
  gives for a file the old revision does not have.
\<close>

definition classify :: "schema_doc option \<Rightarrow> schema_doc \<Rightarrow> error + severity" where
  "classify oldJs newJs =
     (case oldJs of
        None \<Rightarrow> Inr Sev_minor
      | Some old \<Rightarrow>
          let oP = props_of old;
              nP = props_of newJs;
              oR = new_Set (map JStr (required_of old));
              nR = new_Set (map JStr (required_of newJs))
          in
          if list_ex (\<lambda>k. \<not> has_in nP k) (keys oP) then Inr Sev_major
          else
            (case shared_scan oP nP (keys nP) of
               Inl e \<Rightarrow> Inl e
             | Inr True \<Rightarrow> Inr Sev_major
             | Inr False \<Rightarrow>
                 if list_ex (\<lambda>k. \<not> set_has oR k) nR then Inr Sev_major
                 else
                   (let added = filter (\<lambda>k. \<not> has_in oP k) (keys nP) in
                    if added \<noteq> []
                    then (if list_ex (\<lambda>k. set_has nR (JStr k)) added
                          then Inr Sev_major else Inr Sev_minor)
                    else Inr Sev_patch)))"

text \<open>
  The loop over the changed schema files.  A file is given by what the two reads of the
  loop body give for it: \<open>readJSONAtRef\<close> catches every error, so the old document
  is there or it is \<open>None\<close>; \<open>JSON.parse(fs.readFileSync(f))\<close> gives the new
  document or throws (a changed file that was deleted or does not parse).  An error
  thrown by the read or by \<open>classify\<close> ends the run.
\<close>

type_synonym changed_file = "schema_doc option \<times> (error + schema_doc)"

fun required_fold :: "severity \<Rightarrow> changed_file list \<Rightarrow> error + severity" where
  "required_fold r [] = Inr r"
| "required_fold r ((oldJ, newRead) # fs) =
     (case newRead of
        Inl e \<Rightarrow> Inl e
      | Inr newJ \<Rightarrow>
     (case classify oldJ newJ of
        Inl e \<Rightarrow> Inl e
      | Inr c \<Rightarrow> required_fold (bumpFrom r c) fs))"

text \<open>
  Two conditions on the input, used to state when the classifier and the loop return:
  a document none of whose field schemas is \<open>null\<close>, and a changed file whose new
  document was read and whose documents are of that kind.
\<close>

definition null_free :: "schema_doc \<Rightarrow> bool" where
  "null_free d = list_all (\<lambda>v. v \<noteq> JNull) (map snd (props_of d))"

fun classifiable :: "changed_file \<Rightarrow> bool" where
  "classifiable (oldJ, Inl e) = False"
| "classifiable (None, Inr newJ) = null_free newJ"
| "classifiable (Some old, Inr newJ) = (null_free old \<and> null_free newJ)"

subsection \<open>The order of the severities\<close>

text \<open>\<open>none < patch < minor < major\<close>, as \<open>rank\<close> numbers them.\<close>

instantiation severity :: linorder
begin
definition less_eq_severity :: "severity \<Rightarrow> severity \<Rightarrow> bool" where
  "less_eq_severity a b = (rank a \<le> rank b)"
definition less_severity :: "severity \<Rightarrow> severity \<Rightarrow> bool" where
  "less_severity a b = (rank a < rank b)"
instance
proof
  fix x y z :: severity
  show "(x < y) = (x \<le> y \<and> \<not> y \<le> x)"
    by (auto simp: less_eq_severity_def less_severity_def)
  show "x \<le> x" by (simp add: less_eq_severity_def)
  show "x \<le> y \<Longrightarrow> y \<le> z \<Longrightarrow> x \<le> z" by (simp add: less_eq_severity_def)
  show "x \<le> y \<Longrightarrow> y \<le> x \<Longrightarrow> x = y"
    by (cases x; cases y) (simp_all add: less_eq_severity_def)
  show "x \<le> y \<or> y \<le> x" by (auto simp: less_eq_severity_def)
qed
end


section \<open>Properties\<close>

subsection \<open>Aggregation\<close>

lemma severity_order: "Sev_none < Sev_patch \<and> Sev_patch < Sev_minor \<and> Sev_minor < Sev_major"
  by (simp add: less_severity_def)

lemma bumpFrom_max: "bumpFrom a b = max a b"
  by (cases a; cases b) (simp_all add: bumpFrom_def max_def less_eq_severity_def)

lemma foldl_bumpFrom: "foldl bumpFrom r cs = Max (insert r (set cs))"
proof (induction cs arbitrary: r)
  case Nil
  show ?case by simp
next
  case (Cons c cs)
  have "Max (insert (max r c) (set cs)) = Max (insert r (insert c (set cs)))"
    by (cases "set cs = {}") (simp_all add: max.assoc)
  with Cons show ?case by (simp add: bumpFrom_max)
qed

lemma Sev_none_least: "Sev_none \<le> c"
  by (simp add: less_eq_severity_def)

lemma aggregate_Max: "cs \<noteq> [] \<Longrightarrow> aggregate cs = Max (set cs)"
proof -
  assume ne: "cs \<noteq> []"
  have "Max (insert Sev_none (set cs)) = max Sev_none (Max (set cs))"
    using ne by simp
  also have "\<dots> = Max (set cs)"
    by (simp add: max_def Sev_none_least)
  finally show ?thesis by (simp add: aggregate_def foldl_bumpFrom)
qed

lemma aggregate_mset: "mset cs = mset ds \<Longrightarrow> aggregate cs = aggregate ds"
proof -
  assume "mset cs = mset ds"
  then have "set cs = set ds" by (rule mset_eq_setD)
  then show ?thesis by (simp add: aggregate_def foldl_bumpFrom)
qed

text \<open>
  Claim C7.  The aggregate of the empty sequence is \<open>none\<close>; of a non-empty sequence
  it is the maximum under \<open>none < patch < minor < major\<close>; of two severities it is
  their maximum; \<open>bumpFrom\<close> is associative and commutative; and two sequences with
  the same elements in any order have the same aggregate.
\<close>

theorem aggregate_is_maximum:
  "aggregate [] = Sev_none
   \<and> (\<forall>cs. cs \<noteq> [] \<longrightarrow> aggregate cs = Max (set cs))
   \<and> (\<forall>a b. aggregate [a, b] = max a b)
   \<and> (\<forall>a b c. bumpFrom (bumpFrom a b) c = bumpFrom a (bumpFrom b c))
   \<and> (\<forall>a b. bumpFrom a b = bumpFrom b a)
   \<and> (\<forall>cs ds. mset cs = mset ds \<longrightarrow> aggregate cs = aggregate ds)"
proof (intro conjI allI impI)
  show "aggregate [] = Sev_none" by (simp add: aggregate_def)
next
  fix cs :: "severity list" assume "cs \<noteq> []"
  then show "aggregate cs = Max (set cs)" by (rule aggregate_Max)
next
  fix a b show "aggregate [a, b] = max a b"
    by (simp add: aggregate_Max)
next
  fix a b c show "bumpFrom (bumpFrom a b) c = bumpFrom a (bumpFrom b c)"
    by (simp add: bumpFrom_max max.assoc)
next
  fix a b show "bumpFrom a b = bumpFrom b a"
    by (simp add: bumpFrom_max max.commute)
next
  fix cs ds :: "severity list" assume "mset cs = mset ds"
  then show "aggregate cs = aggregate ds" by (rule aggregate_mset)
qed

theorem aggregate_is_maximum_witness:
  "aggregate [Sev_patch, Sev_major, Sev_minor] = Max (set [Sev_patch, Sev_major, Sev_minor])
   \<and> aggregate [Sev_patch, Sev_major, Sev_minor] = Sev_major
   \<and> aggregate [Sev_minor, Sev_patch, Sev_major] = aggregate [Sev_patch, Sev_major, Sev_minor]"
proof -
  have ne: "[Sev_patch, Sev_major, Sev_minor] \<noteq> []" by simp
  have perm: "mset [Sev_minor, Sev_patch, Sev_major] = mset [Sev_patch, Sev_major, Sev_minor]"
    by simp
  have mx: "aggregate [Sev_patch, Sev_major, Sev_minor] = Max (set [Sev_patch, Sev_major, Sev_minor])"
    using aggregate_is_maximum ne by blast
  have val: "aggregate [Sev_patch, Sev_major, Sev_minor] = Sev_major"
    by (simp add: aggregate_def bumpFrom_def)
  have ord: "aggregate [Sev_minor, Sev_patch, Sev_major] = aggregate [Sev_patch, Sev_major, Sev_minor]"
    using aggregate_is_maximum perm by blast
  from mx val ord show ?thesis by blast
qed


subsection \<open>Version strings\<close>

lemma re_group_backslash: "re_group s = Some (g, r) \<Longrightarrow> \<exists>ds. g = backslash # ds"
  by (cases s) (auto simp: Let_def split: if_splits)

lemma to_number_backslash: "to_number (backslash # ds) = NaN"
  by (simp add: to_number_def is_digit_def backslash_def)

lemma parse_NaN:
  "parse v = Some x \<Longrightarrow> ver_M x = NaN \<and> ver_m x = NaN \<and> ver_p x = NaN"
  by (auto simp: parse_def re_match_def to_number_backslash
      split: option.splits prod.splits dest!: re_group_backslash)

lemma cmp_never_reports_a_bump: "cmp a b = Bump_invalid \<or> cmp a b = Bump_none_or_down"
  by (auto simp: cmp_def split: option.splits dest!: parse_NaN)

lemma parse_digits_fails: "is_digit c \<Longrightarrow> parse (c # cs) = None"
  by (auto simp: parse_def re_match_def is_digit_def backslash_def Let_def)

text \<open>
  Claim C1.  \<open>cmp\<close> is to classify two version strings by their first differing
  component, and \<open>parse\<close> is to accept any text that starts with three numbers
  separated by dots.  The pattern of \<open>parse\<close> asks for backslashes and letters
  \<open>d\<close> instead of digits, so on the version strings of the claim \<open>parse\<close>
  fails and \<open>cmp\<close> answers \<open>invalid\<close> every time.  By
  \<open>parse_digits_fails\<close> no text that starts with a digit is parsed, and by
  \<open>cmp_never_reports_a_bump\<close> the answer is never \<open>major\<close>, \<open>minor\<close> or
  \<open>patch\<close>.
\<close>

theorem cmp_rejects_digit_versions:
  "cmp ''1.2.3'' ''2.0.0'' = Bump_invalid
   \<and> cmp ''1.2.3'' ''1.3.0'' = Bump_invalid
   \<and> cmp ''1.2.3'' ''1.2.4'' = Bump_invalid
   \<and> cmp ''1.2.3'' ''1.2.3'' = Bump_invalid
   \<and> cmp ''1.2.3'' ''1.2.2'' = Bump_invalid
   \<and> cmp ''x.y.z'' ''1.0.0'' = Bump_invalid
   \<and> parse ''1.2.3-beta'' = None"
  by (simp add: cmp_def parse_def re_match_def backslash_def)


subsection \<open>The decision block\<close>

text \<open>
  Claim C2.  With no required change the run passes whatever the bump is, and warns
  exactly when the bump is neither \<open>none-or-down\<close> nor \<open>patch\<close>.  A required
  \<open>patch\<close> passes exactly on a bump of \<open>patch\<close>, \<open>minor\<close> or \<open>major\<close>,
  a required \<open>minor\<close> exactly on \<open>minor\<close> or \<open>major\<close>, a required
  \<open>major\<close> exactly on \<open>major\<close>; otherwise the run fails with the message of
  its row.  An invalid bump fails against every required level but \<open>none\<close>.
\<close>

theorem decision_matrix:
  "(\<forall>b. \<exists>r. decide Sev_none b = Some r \<and> exit_status r = 0
          \<and> ((\<exists>w. Warn w \<in> set (printed r)) \<longleftrightarrow> b \<notin> {Bump_none_or_down, Bump_patch}))
   \<and> (\<forall>b. \<exists>r. decide Sev_patch b = Some r
          \<and> (exit_status r = 0 \<longleftrightarrow> b \<in> {Bump_patch, Bump_minor, Bump_major})
          \<and> (exit_status r \<noteq> 0 \<longrightarrow> exit_status r = 1
                \<and> printed r = [Error (cross_mark @ ''patch change needs version bump'')]))
   \<and> (\<forall>b. \<exists>r. decide Sev_minor b = Some r
          \<and> (exit_status r = 0 \<longleftrightarrow> b \<in> {Bump_minor, Bump_major})
          \<and> (exit_status r \<noteq> 0 \<longrightarrow> exit_status r = 1
                \<and> printed r = [Error (cross_mark @ ''additive change needs minor bump'')]))
   \<and> (\<forall>b. \<exists>r. decide Sev_major b = Some r
          \<and> (exit_status r = 0 \<longleftrightarrow> b = Bump_major)
          \<and> (exit_status r \<noteq> 0 \<longrightarrow> exit_status r = 1
                \<and> printed r = [Error (cross_mark @ ''breaking change needs MAJOR bump'')]))
   \<and> (\<forall>req. \<exists>r. decide req Bump_invalid = Some r
          \<and> (exit_status r = 0 \<longleftrightarrow> req = Sev_none))"
proof (intro conjI allI)
  fix b show "\<exists>r. decide Sev_none b = Some r \<and> exit_status r = 0
          \<and> ((\<exists>w. Warn w \<in> set (printed r)) \<longleftrightarrow> b \<notin> {Bump_none_or_down, Bump_patch})"
    by (cases b) (simp_all add: decide_def ok_def)
next
  fix b show "\<exists>r. decide Sev_patch b = Some r
          \<and> (exit_status r = 0 \<longleftrightarrow> b \<in> {Bump_patch, Bump_minor, Bump_major})
          \<and> (exit_status r \<noteq> 0 \<longrightarrow> exit_status r = 1
                \<and> printed r = [Error (cross_mark @ ''patch change needs version bump'')])"
    by (cases b) (simp_all add: decide_def ok_def fail_def)
next
  fix b show "\<exists>r. decide Sev_minor b = Some r
          \<and> (exit_status r = 0 \<longleftrightarrow> b \<in> {Bump_minor, Bump_major})
          \<and> (exit_status r \<noteq> 0 \<longrightarrow> exit_status r = 1
                \<and> printed r = [Error (cross_mark @ ''additive change needs minor bump'')])"
    by (cases b) (simp_all add: decide_def ok_def fail_def)
next
  fix b show "\<exists>r. decide Sev_major b = Some r
          \<and> (exit_status r = 0 \<longleftrightarrow> b = Bump_major)
          \<and> (exit_status r \<noteq> 0 \<longrightarrow> exit_status r = 1
                \<and> printed r = [Error (cross_mark @ ''breaking change needs MAJOR bump'')])"
    by (cases b) (simp_all add: decide_def ok_def fail_def)
next
  fix req show "\<exists>r. decide req Bump_invalid = Some r \<and> (exit_status r = 0 \<longleftrightarrow> req = Sev_none)"
    by (cases req) (simp_all add: decide_def ok_def fail_def)
qed

theorem decision_matrix_witness:
  "decide Sev_major Bump_minor
     = Some \<lparr>printed = [Error (cross_mark @ ''breaking change needs MAJOR bump'')], exit_status = 1\<rparr>
   \<and> (\<exists>r. decide Sev_minor Bump_major = Some r \<and> exit_status r = 0)
   \<and> (\<exists>r. decide Sev_none Bump_none_or_down = Some r \<and> exit_status r = 0
         \<and> printed r = [Log (check_mark @ ''no schema changes'')])
   \<and> (\<exists>r. decide Sev_none Bump_major = Some r \<and> exit_status r = 0
         \<and> (\<exists>w. Warn w \<in> set (printed r)))"
proof -
  note row = decision_matrix [THEN conjunct2, THEN conjunct2, THEN conjunct2, THEN conjunct1,
      THEN spec, of Bump_minor]
  then obtain r where
    r: "decide Sev_major Bump_minor = Some r" and
    st: "exit_status r = 0 \<longleftrightarrow> Bump_minor = Bump_major" and
    msg: "exit_status r \<noteq> 0 \<longrightarrow> exit_status r = 1
          \<and> printed r = [Error (cross_mark @ ''breaking change needs MAJOR bump'')]"
    by (elim exE conjE)
  from st have "exit_status r \<noteq> 0" by simp
  with msg have "exit_status r = 1"
    and "printed r = [Error (cross_mark @ ''breaking change needs MAJOR bump'')]"
    by simp_all
  then have "r = \<lparr>printed = [Error (cross_mark @ ''breaking change needs MAJOR bump'')], exit_status = 1\<rparr>"
    by simp
  with r have a: "decide Sev_major Bump_minor
     = Some \<lparr>printed = [Error (cross_mark @ ''breaking change needs MAJOR bump'')], exit_status = 1\<rparr>"
    by simp
  have b: "\<exists>r. decide Sev_minor Bump_major = Some r \<and> exit_status r = 0"
    by (simp add: decide_def ok_def)
  have c: "\<exists>r. decide Sev_none Bump_none_or_down = Some r \<and> exit_status r = 0
         \<and> printed r = [Log (check_mark @ ''no schema changes'')]"
    by (simp add: decide_def ok_def)
  have d: "\<exists>r. decide Sev_none Bump_major = Some r \<and> exit_status r = 0
         \<and> (\<exists>w. Warn w \<in> set (printed r))"
    by (simp add: decide_def ok_def)
  show ?thesis
    by (intro conjI) (rule a, rule b, rule c, rule d)
qed

subsection \<open>New files\<close>

text \<open>
  Claim C8.  A file with no old revision is classified \<open>minor\<close>, whatever the new
  document is: neither \<open>none\<close> nor an error.
\<close>

theorem new_file_yields_minor: "classify None newJs = Inr Sev_minor"
  by (simp add: classify_def)


subsection \<open>Sets of enum values and of required names\<close>

lemma same_value_zero_iff: "same_value_zero v x = (literal v \<and> v = x)"
  by (cases v) auto

lemma set_has_iff: "set_has s v = (literal v \<and> v \<in> set s)"
  by (auto simp: set_has_def list_ex_iff same_value_zero_iff)

lemma set_foldl_set_add: "set (foldl set_add acc xs) = set acc \<union> set xs"
  by (induction xs arbitrary: acc) (auto simp: set_add_def set_has_iff)

lemma set_new_Set: "set (new_Set xs) = set xs"
  by (simp add: new_Set_def set_foldl_set_add)

lemma set_has_required: "set_has (new_Set (map JStr rs)) (JStr k) = (k \<in> set rs)"
  by (auto simp: set_has_iff set_new_Set)

lemma newly_required_iff:
  "list_ex (\<lambda>k. \<not> set_has (new_Set (map JStr os)) k) (new_Set (map JStr ns))
     = (\<exists>k \<in> set ns. k \<notin> set os)"
  by (auto simp: list_ex_iff set_has_iff set_new_Set)

lemma distinct_foldl_set_add:
  "distinct acc \<Longrightarrow> list_all literal xs \<Longrightarrow> distinct (foldl set_add acc xs)"
  by (induction xs arbitrary: acc) (auto simp: set_add_def set_has_iff)

lemma length_new_Set_literal: "list_all literal xs \<Longrightarrow> length (new_Set xs) = card (set xs)"
proof -
  assume "list_all literal xs"
  then have "distinct (new_Set xs)"
    by (simp add: new_Set_def distinct_foldl_set_add)
  then have "length (new_Set xs) = card (set (new_Set xs))"
    by (simp add: distinct_card)
  then show ?thesis by (simp add: set_new_Set)
qed

lemma length_new_Set_ge: "card (set xs) \<le> length (new_Set xs)"
proof -
  have "card (set (new_Set xs)) \<le> length (new_Set xs)" by (rule card_length)
  then show ?thesis by (simp add: set_new_Set)
qed

subsection \<open>Equal documents\<close>

lemma shared_check_same: "shared_check P P k = Inr False"
  by (simp add: shared_check_def)

lemma shared_scan_same: "shared_scan P P ks = Inr False"
  by (induction ks) (simp_all add: shared_check_same)

lemma no_removal_same: "list_ex (\<lambda>k. \<not> has_in P k) (keys P) = False"
  by (simp add: list_ex_iff has_in_def)

lemma no_addition_same: "filter (\<lambda>k. \<not> has_in P k) (keys P) = []"
  by (simp add: filter_empty_conv has_in_def)

lemma classify_same: "classify (Some X) X = Inr Sev_patch"
  by (simp add: classify_def Let_def no_removal_same shared_scan_same newly_required_iff
      no_addition_same)

lemma same_text_check:
  "json_stringify (get_prop oP k) = json_stringify (get_prop nP k)
   \<Longrightarrow> shared_check oP nP k = Inr False"
  by (simp add: shared_check_def)

lemma same_text_scan:
  assumes "\<And>k. k \<in> set ks
            \<Longrightarrow> json_stringify (get_prop oP k) = json_stringify (get_prop nP k)"
  shows "shared_scan oP nP ks = Inr False"
  using assms
proof (induction ks)
  case Nil
  show ?case by simp
next
  case (Cons k ks)
  have "shared_check oP nP k = Inr False"
    by (rule same_text_check) (simp add: Cons.prems)
  moreover have "shared_scan oP nP ks = Inr False"
    by (rule Cons.IH) (simp add: Cons.prems)
  ultimately show ?case by simp
qed

text \<open>
  Claim C6, amended.  Two documents with the same property names and the same required
  names, whose field schemas under every name have the same \<open>JSON.stringify\<close>
  text, are classified \<open>patch\<close>; so is a document against itself.  Field schemas
  that are equal values, the members of every object in the same order, have the same
  text; the order of the properties and of the required names does not matter.
\<close>

theorem same_texts_yield_patch:
  assumes names: "set (keys (props_of X)) = set (keys (props_of Y))"
    and texts: "\<forall>k \<in> set (keys (props_of Y)).
        json_stringify (get_prop (props_of X) k) = json_stringify (get_prop (props_of Y) k)"
    and req: "set (required_of X) = set (required_of Y)"
  shows "classify (Some X) Y = Inr Sev_patch \<and> classify (Some X) X = Inr Sev_patch"
proof
  let ?oP = "props_of X" and ?nP = "props_of Y"
  have removal: "list_ex (\<lambda>k. \<not> has_in ?nP k) (keys ?oP) = False"
    using names by (auto simp: list_ex_iff has_in_def)
  have scan: "shared_scan ?oP ?nP (keys ?nP) = Inr False"
    by (rule same_text_scan) (simp add: texts)
  have newreq: "list_ex (\<lambda>k. \<not> set_has (new_Set (map JStr (required_of X))) k)
        (new_Set (map JStr (required_of Y))) = False"
    using req by (simp add: newly_required_iff)
  have added: "filter (\<lambda>k. \<not> has_in ?oP k) (keys ?nP) = []"
    using names by (auto simp: filter_empty_conv has_in_def)
  show "classify (Some X) Y = Inr Sev_patch"
    unfolding classify_def option.case Let_def removal scan newreq added by simp
  show "classify (Some X) X = Inr Sev_patch" by (rule classify_same)
qed

theorem same_texts_yield_patch_witness:
  "classify
     (Some \<lparr>doc_properties = Some [(''id'', JObj [(''type'', JStr ''string'')]),
                                   (''size'', JObj [(''type'', JStr ''number''),
                                                    (''enum'', JArr [JNum ''1'', JNum ''2.5''])])],
            doc_required = Some [''id'', ''size'']\<rparr>)
     \<lparr>doc_properties = Some [(''size'', JObj [(''type'', JStr ''number''),
                                              (''enum'', JArr [JNum ''1'', JNum ''2.5''])]),
                             (''id'', JObj [(''type'', JStr ''string'')])],
      doc_required = Some [''size'', ''id'']\<rparr>
   = Inr Sev_patch"
proof -
  let ?X = "\<lparr>doc_properties = Some [(''id'', JObj [(''type'', JStr ''string'')]),
                                   (''size'', JObj [(''type'', JStr ''number''),
                                                    (''enum'', JArr [JNum ''1'', JNum ''2.5''])])],
            doc_required = Some [''id'', ''size'']\<rparr>"
  let ?Y = "\<lparr>doc_properties = Some [(''size'', JObj [(''type'', JStr ''number''),
                                              (''enum'', JArr [JNum ''1'', JNum ''2.5''])]),
                             (''id'', JObj [(''type'', JStr ''string'')])],
      doc_required = Some [''size'', ''id'']\<rparr>"
  have 1: "set (keys (props_of ?X)) = set (keys (props_of ?Y))"
    by (auto simp: props_of_def keys_def)
  have 2: "\<forall>k \<in> set (keys (props_of ?Y)).
        json_stringify (get_prop (props_of ?X) k) = json_stringify (get_prop (props_of ?Y) k)"
    by (simp add: props_of_def keys_def get_prop_def)
  have 3: "set (required_of ?X) = set (required_of ?Y)"
    by (auto simp: required_of_def)
  from same_texts_yield_patch [OF 1 2 3] show ?thesis by (rule conjunct1)
qed

text \<open>
  Claim C6, as stated: any two deep-equal documents are classified \<open>patch\<close>.
  The two field schemas below have the same members, each with the same value, and
  differ in the order of the members only; their texts differ, and the classification
  is \<open>major\<close>.
\<close>

theorem reordered_members_are_major:
  "map_of [(''type'', JStr ''string''), (''format'', JStr ''email'')]
     = map_of [(''format'', JStr ''email''), (''type'', JStr ''string'')]
   \<and> classify
       (Some \<lparr>doc_properties = Some [(''mail'', JObj [(''type'', JStr ''string''),
                 (''format'', JStr ''email'')])], doc_required = None\<rparr>)
       \<lparr>doc_properties = Some [(''mail'', JObj [(''format'', JStr ''email''),
                 (''type'', JStr ''string'')])], doc_required = None\<rparr>
     = Inr Sev_major"
proof
  show "map_of [(''type'', JStr ''string''), (''format'', JStr ''email'')]
     = map_of [(''format'', JStr ''email''), (''type'', JStr ''string'')]"
    by (auto simp: fun_eq_iff)
  show "classify
       (Some \<lparr>doc_properties = Some [(''mail'', JObj [(''type'', JStr ''string''),
                 (''format'', JStr ''email'')])], doc_required = None\<rparr>)
       \<lparr>doc_properties = Some [(''mail'', JObj [(''format'', JStr ''email''),
                 (''type'', JStr ''string'')])], doc_required = None\<rparr>
     = Inr Sev_major"
    by (simp add: classify_def props_of_def required_of_def keys_def has_in_def
        shared_check_def get_prop_def enum_set_def quote_def escape_char_def backslash_def)
qed

subsection \<open>Never none\<close>

lemma classify_not_none: "classify oldJs newJs \<noteq> Inr Sev_none"
  by (simp add: classify_def Let_def split: option.split sum.split bool.split)

lemma rank_bumpFrom: "rank (bumpFrom r c) = max (rank r) (rank c)"
  by (simp add: bumpFrom_def max_def)

subsection \<open>Removal\<close>

lemma removal_of_own_name_is_major:
  "k \<in> set (keys (props_of old)) \<Longrightarrow> \<not> has_in (props_of newJs) k
   \<Longrightarrow> classify (Some old) newJs = Inr Sev_major"
  by (auto simp: classify_def Let_def list_ex_iff)

text \<open>
  Claim C4.  A property of the old document that the new one lacks is to give
  \<open>major\<close>.  \<open>removal_of_own_name_is_major\<close> shows it for every name for which
  the test \<open>k in nP\<close> is false.  The test is also true for the names every object
  inherits, so the removal of a property called \<open>constructor\<close>, with nothing else
  changed, is classified \<open>patch\<close>.
\<close>

theorem removal_of_inherited_name_is_patch:
  "classify
     (Some \<lparr>doc_properties = Some [(''constructor'', JObj [(''type'', JStr ''string'')])],
            doc_required = None\<rparr>)
     \<lparr>doc_properties = Some [], doc_required = None\<rparr>
   = Inr Sev_patch"
  by (simp add: classify_def props_of_def required_of_def keys_def has_in_def inherited_def
      object_prototype_functions_def new_Set_def)

subsection \<open>Totality\<close>

lemma get_enum_returns: "x \<noteq> Val JNull \<Longrightarrow> x \<noteq> Undefined \<Longrightarrow> \<exists>y. get_enum x = Inr y"
  by (cases x rule: get_enum.cases) simp_all

lemma enum_set_returns: "x \<noteq> Val JNull \<Longrightarrow> x \<noteq> Undefined \<Longrightarrow> \<exists>s. enum_set x = Inr s"
proof -
  assume "x \<noteq> Val JNull" "x \<noteq> Undefined"
  then obtain y where "get_enum x = Inr y" using get_enum_returns by blast
  then show ?thesis
    by (simp add: enum_set_def split: jsval.split json.split)
qed

lemma get_prop_own: "map_of P k = Some v \<Longrightarrow> get_prop P k = Val v"
  by (simp add: get_prop_def)

lemma get_prop_inherited:
  "map_of P k = None \<Longrightarrow> inherited k
   \<Longrightarrow> get_prop P k = Function \<or> get_prop P k = Object_prototype"
  by (auto simp: get_prop_def inherited_def)

lemma map_of_None_keys: "map_of P k = None \<longleftrightarrow> k \<notin> set (keys P)"
  by (simp add: keys_def map_of_eq_None_iff)

lemma get_prop_not_null:
  assumes "has_in P k" "JNull \<notin> snd ` set P"
  shows "get_prop P k \<noteq> Val JNull \<and> get_prop P k \<noteq> Undefined"
proof (cases "map_of P k")
  case None
  with assms(1) have "inherited k" by (simp add: has_in_def map_of_None_keys)
  with None have "get_prop P k = Function \<or> get_prop P k = Object_prototype"
    by (rule get_prop_inherited)
  then show ?thesis by auto
next
  case (Some v)
  then have "(k, v) \<in> set P" by (rule map_of_SomeD)
  then have "v \<in> snd ` set P" by force
  with assms(2) have "v \<noteq> JNull" by blast
  with Some show ?thesis by (simp add: get_prop_own)
qed

lemma shared_check_returns:
  assumes "JNull \<notin> snd ` set oP" "JNull \<notin> snd ` set nP" "k \<in> set (keys nP)"
  shows "\<exists>b. shared_check oP nP k = Inr b"
proof (cases "has_in oP k")
  case False
  then show ?thesis by (auto simp: shared_check_def)
next
  case True
  from assms(3) have "has_in nP k" by (simp add: has_in_def)
  with assms(2) obtain ne where ne: "enum_set (get_prop nP k) = Inr ne"
    using get_prop_not_null enum_set_returns by blast
  from True assms(1) obtain oe where oe: "enum_set (get_prop oP k) = Inr oe"
    using get_prop_not_null enum_set_returns by blast
  show ?thesis
    by (auto simp: shared_check_def True oe ne split: option.split)
qed

lemma shared_scan_returns:
  assumes "JNull \<notin> snd ` set oP" "JNull \<notin> snd ` set nP"
  shows "set ks \<subseteq> set (keys nP) \<Longrightarrow> \<exists>b. shared_scan oP nP ks = Inr b"
proof (induction ks)
  case Nil
  show ?case by auto
next
  case (Cons k ks)
  then have "k \<in> set (keys nP)" by simp
  with assms obtain b where b: "shared_check oP nP k = Inr b"
    using shared_check_returns by blast
  from Cons show ?case by (cases b) (auto simp: b)
qed

lemma classify_returns:
  assumes "JNull \<notin> snd ` set (props_of old)" "JNull \<notin> snd ` set (props_of newJs)"
  shows "\<exists>s. classify (Some old) newJs = Inr s"
proof -
  from assms obtain b where
    "shared_scan (props_of old) (props_of newJs) (keys (props_of newJs)) = Inr b"
    using shared_scan_returns [of "props_of old" "props_of newJs" "keys (props_of newJs)"]
    by blast
  then show ?thesis
    by (cases b) (auto simp: classify_def Let_def)
qed

text \<open>
  Claim C9, as stated, for field schemas that are any JSON values: \<open>classify\<close>
  never throws.  It does when a field schema is \<open>null\<close> and the other document has
  something else under that name, for then the source reads \<open>null.enum\<close>.
\<close>

theorem classify_throws_on_null_field_schema:
  "classify
     (Some \<lparr>doc_properties = Some [(''a'', JNull)], doc_required = None\<rparr>)
     \<lparr>doc_properties = Some [(''a'', JObj [])], doc_required = None\<rparr>
   = Inl TypeError"
  by (simp add: classify_def props_of_def required_of_def keys_def has_in_def inherited_def
      object_prototype_functions_def new_Set_def shared_check_def get_prop_def enum_set_def)

text \<open>
  Claim C9, amended.  For documents none of whose field schemas is \<open>null\<close>, and
  for an absent old document, \<open>classify\<close> returns a severity; and for every
  required severity and every bump the decision block ends in an outcome.
\<close>

theorem classify_and_decide_total:
  assumes "\<forall>old \<in> set_option oldJs. JNull \<notin> snd ` set (props_of old)"
    and "JNull \<notin> snd ` set (props_of newJs)"
  shows "(\<exists>s. classify oldJs newJs = Inr s) \<and> (\<exists>r. decide req b = Some r)"
proof
  show "\<exists>s. classify oldJs newJs = Inr s"
  proof (cases oldJs)
    case None
    then show ?thesis by (simp add: classify_def)
  next
    case (Some old)
    with assms show ?thesis using classify_returns by simp
  qed
  show "\<exists>r. decide req b = Some r"
    by (cases req) (simp_all add: decide_def)
qed

theorem classify_and_decide_total_witness:
  "JNull \<notin> snd ` set (props_of \<lparr>doc_properties = Some [(''a'', JStr ''x'')], doc_required = None\<rparr>)
   \<and> JNull \<notin> snd ` set (props_of \<lparr>doc_properties = Some [(''a'', JObj [])], doc_required = None\<rparr>)
   \<and> (\<exists>s. classify (Some \<lparr>doc_properties = Some [(''a'', JStr ''x'')], doc_required = None\<rparr>)
              \<lparr>doc_properties = Some [(''a'', JObj [])], doc_required = None\<rparr> = Inr s)
   \<and> (\<exists>r. decide Sev_major Bump_invalid = Some r)"
proof -
  let ?old = "\<lparr>doc_properties = Some [(''a'', JStr ''x'')], doc_required = None\<rparr>"
  let ?new = "\<lparr>doc_properties = Some [(''a'', JObj [])], doc_required = None\<rparr>"
  have o: "JNull \<notin> snd ` set (props_of ?old)" by (simp add: props_of_def)
  have n: "JNull \<notin> snd ` set (props_of ?new)" by (simp add: props_of_def)
  from o have o': "\<forall>old \<in> set_option (Some ?old). JNull \<notin> snd ` set (props_of old)" by simp
  from classify_and_decide_total [OF o' n, of Sev_major Bump_invalid] o n
  show ?thesis by (intro conjI) (assumption | elim conjE)+
qed


subsection \<open>The loop over the changed files\<close>

lemma null_free_iff: "null_free d \<longleftrightarrow> JNull \<notin> snd ` set (props_of d)"
  by (force simp: null_free_def list_all_iff)

lemma classify_present_returns:
  assumes "null_free old" "null_free newJs"
  shows "classify (Some old) newJs \<in> {Inr Sev_patch, Inr Sev_minor, Inr Sev_major}"
proof -
  from assms have "JNull \<notin> snd ` set (props_of old)" "JNull \<notin> snd ` set (props_of newJs)"
    by (simp_all add: null_free_iff)
  then have "\<exists>s. classify (Some old) newJs = Inr s" by (rule classify_returns)
  then obtain s where s: "classify (Some old) newJs = Inr s" ..
  with classify_not_none [of "Some old" newJs] have "s \<noteq> Sev_none" by auto
  with s show ?thesis by (cases s) simp_all
qed

lemma classifiable_classify:
  "classifiable (oldJ, newRead)
   \<Longrightarrow> \<exists>newJ c. newRead = Inr newJ \<and> classify oldJ newJ = Inr c"
proof (cases newRead)
  case (Inl e)
  moreover assume "classifiable (oldJ, newRead)"
  ultimately show ?thesis by simp
next
  case (Inr newJ)
  assume ok: "classifiable (oldJ, newRead)"
  show ?thesis
  proof (cases oldJ)
    case None
    with Inr show ?thesis by (simp add: classify_def)
  next
    case (Some old)
    with Inr ok have "null_free old" "null_free newJ" by simp_all
    then have "classify (Some old) newJ \<in> {Inr Sev_patch, Inr Sev_minor, Inr Sev_major}"
      by (rule classify_present_returns)
    with Inr Some show ?thesis by auto
  qed
qed

lemma required_fold_lower:
  "required_fold r fs = Inr r' \<Longrightarrow> rank r \<le> rank r' \<and> (fs \<noteq> [] \<longrightarrow> 1 \<le> rank r')"
proof (induction fs arbitrary: r)
  case Nil
  then show ?case by simp
next
  case (Cons f fs)
  obtain oldJ newRead where f: "f = (oldJ, newRead)" by (cases f)
  from Cons.prems f obtain newJ c where
    c: "classify oldJ newJ = Inr c" and rest: "required_fold (bumpFrom r c) fs = Inr r'"
    by (auto split: sum.splits)
  from c have "c \<noteq> Sev_none" using classify_not_none [of oldJ newJ] by auto
  then have "1 \<le> rank c" by (cases c) simp_all
  moreover from Cons.IH [OF rest] have "rank (bumpFrom r c) \<le> rank r'" by simp
  ultimately show ?case by (simp add: rank_bumpFrom)
qed

lemma required_fold_returns:
  "list_all classifiable fs \<Longrightarrow> \<exists>r'. required_fold r fs = Inr r'"
proof (induction fs arbitrary: r)
  case Nil
  show ?case by simp
next
  case (Cons f fs)
  obtain oldJ newRead where f: "f = (oldJ, newRead)" by (cases f)
  with Cons.prems have "classifiable (oldJ, newRead)" by simp
  then obtain newJ c where c: "newRead = Inr newJ" "classify oldJ newJ = Inr c"
    using classifiable_classify by blast
  from Cons.prems have "list_all classifiable fs" by simp
  from Cons.IH [OF this] show ?case by (simp add: f c)
qed

text \<open>
  The loop returns the fold of \<open>bumpFrom\<close> over the classifications, that is
  \<open>aggregate\<close> of them when it starts from \<open>none\<close>.
\<close>

lemma required_fold_aggregate:
  "list_all2 (\<lambda>(oldJ, newRead) c. \<exists>newJ. newRead = Inr newJ \<and> classify oldJ newJ = Inr c) fs cs
   \<Longrightarrow> required_fold r fs = Inr (foldl bumpFrom r cs)"
proof (induction fs cs arbitrary: r rule: list_all2_induct)
  case Nil
  show ?case by simp
next
  case (Cons f fs c cs)
  obtain oldJ newRead where f: "f = (oldJ, newRead)" by (cases f)
  with Cons.hyps obtain newJ where "newRead = Inr newJ" "classify oldJ newJ = Inr c" by auto
  with Cons.IH [of "bumpFrom r c"] show ?case by (simp add: f)
qed

lemma required_fold_none_iff:
  assumes "required_fold Sev_none fs = Inr r"
  shows "(r = Sev_none) = (fs = [])" and "fs \<noteq> [] \<longrightarrow> Sev_patch \<le> r"
proof -
  from assms have low: "fs \<noteq> [] \<longrightarrow> 1 \<le> rank r" using required_fold_lower by blast
  show "(r = Sev_none) = (fs = [])"
  proof
    assume "r = Sev_none"
    with low show "fs = []" by auto
  next
    assume "fs = []"
    with assms show "r = Sev_none" by simp
  qed
  from low show "fs \<noteq> [] \<longrightarrow> Sev_patch \<le> r" by (simp add: less_eq_severity_def)
qed

text \<open>
  Claim C10, amended.  \<open>classify\<close> never returns \<open>none\<close>, and for a present
  old document it returns \<open>patch\<close>, \<open>minor\<close> or \<open>major\<close> when no field
  schema of the two documents is \<open>null\<close>.  Whenever the loop over the changed
  schema files returns a required level, that level is \<open>none\<close> exactly for no
  file and at least \<open>patch\<close> otherwise; and the loop returns when every file is
  read and has no \<open>null\<close> field schema.
\<close>

theorem classify_never_none:
  "classify oldJs newJs \<noteq> Inr Sev_none
   \<and> (null_free old \<and> null_free newJs
        \<longrightarrow> classify (Some old) newJs \<in> {Inr Sev_patch, Inr Sev_minor, Inr Sev_major})
   \<and> required_fold Sev_none [] = Inr Sev_none
   \<and> (required_fold Sev_none fs = Inr r
        \<longrightarrow> (r = Sev_none) = (fs = []) \<and> (fs \<noteq> [] \<longrightarrow> Sev_patch \<le> r))
   \<and> (list_all classifiable fs
        \<longrightarrow> (\<exists>r'. required_fold Sev_none fs = Inr r' \<and> (r' = Sev_none) = (fs = [])))"
proof (intro conjI impI)
  show "classify oldJs newJs \<noteq> Inr Sev_none" by (rule classify_not_none)
  show "classify (Some old) newJs \<in> {Inr Sev_patch, Inr Sev_minor, Inr Sev_major}"
    if "null_free old \<and> null_free newJs"
    using that by (simp only: classify_present_returns)
  show "required_fold Sev_none [] = Inr Sev_none" by simp
  show "(r = Sev_none) = (fs = [])" if "required_fold Sev_none fs = Inr r"
    using that by (rule required_fold_none_iff(1))
  show "Sev_patch \<le> r" if "required_fold Sev_none fs = Inr r" "fs \<noteq> []"
    using required_fold_none_iff(2) [OF that(1)] that(2) by simp
  show "\<exists>r'. required_fold Sev_none fs = Inr r' \<and> (r' = Sev_none) = (fs = [])"
    if "list_all classifiable fs"
  proof -
    from that obtain r' where r': "required_fold Sev_none fs = Inr r'"
      using required_fold_returns by blast
    then have "(r' = Sev_none) = (fs = [])" by (rule required_fold_none_iff(1))
    with r' show ?thesis by blast
  qed
qed

theorem classify_never_none_witness:
  "null_free \<lparr>doc_properties = Some [(''id'', JObj [(''type'', JStr ''string'')])],
              doc_required = Some [''id'']\<rparr>
   \<and> null_free \<lparr>doc_properties = Some [(''id'', JObj [(''type'', JStr ''string'')]),
                                        (''note'', JObj [(''type'', JStr ''string'')])],
                 doc_required = Some [''id'']\<rparr>
   \<and> classify
        (Some \<lparr>doc_properties = Some [(''id'', JObj [(''type'', JStr ''string'')])],
               doc_required = Some [''id'']\<rparr>)
        \<lparr>doc_properties = Some [(''id'', JObj [(''type'', JStr ''string'')]),
                                (''note'', JObj [(''type'', JStr ''string'')])],
         doc_required = Some [''id'']\<rparr>
      \<in> {Inr Sev_patch, Inr Sev_minor, Inr Sev_major}
   \<and> required_fold Sev_none
        [(Some \<lparr>doc_properties = Some [(''kind'', JObj [(''enum'', JArr [JStr ''A''])])],
                doc_required = None\<rparr>,
          Inr \<lparr>doc_properties = Some [(''kind'', JObj [(''enum'', JArr [JStr ''A'', JStr ''B''])])],
               doc_required = None\<rparr>),
         (Some \<lparr>doc_properties = Some [(''id'', JObj [(''type'', JStr ''string'')])],
                doc_required = Some [''id'']\<rparr>,
          Inr \<lparr>doc_properties = Some [(''id'', JObj [(''type'', JStr ''string'')]),
                                     (''note'', JObj [(''type'', JStr ''string'')])],
               doc_required = Some [''id'']\<rparr>)]
      = Inr Sev_minor
   \<and> Sev_patch \<le> Sev_minor"
proof -
  let ?o1 = "\<lparr>doc_properties = Some [(''id'', JObj [(''type'', JStr ''string'')])],
              doc_required = Some [''id'']\<rparr>"
  let ?n1 = "\<lparr>doc_properties = Some [(''id'', JObj [(''type'', JStr ''string'')]),
                                        (''note'', JObj [(''type'', JStr ''string'')])],
                 doc_required = Some [''id'']\<rparr>"
  let ?o2 = "\<lparr>doc_properties = Some [(''kind'', JObj [(''enum'', JArr [JStr ''A''])])],
                doc_required = None\<rparr>"
  let ?n2 = "\<lparr>doc_properties = Some [(''kind'', JObj [(''enum'', JArr [JStr ''A'', JStr ''B''])])],
               doc_required = None\<rparr>"
  let ?fs = "[(Some ?o2, Inr ?n2), (Some ?o1, Inr ?n1)]"
  note inst = classify_never_none [where old = ?o1 and newJs = ?n1 and fs = ?fs and r = Sev_minor
      and oldJs = None]
  have fo: "null_free ?o1" by (simp add: null_free_def props_of_def)
  have fn: "null_free ?n1" by (simp add: null_free_def props_of_def)
  have all: "list_all classifiable ?fs" by (simp add: null_free_def props_of_def)
  from inst fo fn have cls: "classify (Some ?o1) ?n1 \<in> {Inr Sev_patch, Inr Sev_minor, Inr Sev_major}"
    by blast
  from inst all obtain r' where r': "required_fold Sev_none ?fs = Inr r'" by blast
  have c2: "classify (Some ?o2) ?n2 = Inr Sev_patch"
    by (simp add: classify_def props_of_def required_of_def keys_def has_in_def inherited_def
        object_prototype_functions_def new_Set_def shared_check_def get_prop_def enum_set_def
        set_add_def set_has_def quote_def escape_char_def backslash_def)
  have c1: "classify (Some ?o1) ?n1 = Inr Sev_minor"
    by (simp add: classify_def props_of_def required_of_def keys_def has_in_def inherited_def
        object_prototype_functions_def new_Set_def shared_check_def get_prop_def enum_set_def
        set_add_def set_has_def)
  have run: "required_fold Sev_none ?fs = Inr Sev_minor"
    by (simp add: c1 c2 bumpFrom_def)
  from inst run have ge: "Sev_patch \<le> Sev_minor" by blast
  from fo fn cls run ge show ?thesis by (intro conjI)
qed

text \<open>
  Claim C10, as stated: for every present old document \<open>classify\<close> returns
  \<open>patch\<close>, \<open>minor\<close> or \<open>major\<close>.  With a field schema that became
  \<open>null\<close> it returns nothing: the source reads \<open>null.enum\<close> on the new side
  and throws, and the loop over this one file ends without a required level.
\<close>

theorem classify_throws_on_null_new_field_schema:
  "classify
     (Some \<lparr>doc_properties = Some [(''a'', JObj [])], doc_required = None\<rparr>)
     \<lparr>doc_properties = Some [(''a'', JNull)], doc_required = None\<rparr>
   = Inl TypeError
   \<and> required_fold Sev_none
       [(Some \<lparr>doc_properties = Some [(''a'', JObj [])], doc_required = None\<rparr>,
         Inr \<lparr>doc_properties = Some [(''a'', JNull)], doc_required = None\<rparr>)]
     = Inl TypeError"
  by (simp add: classify_def props_of_def required_of_def keys_def has_in_def inherited_def
      object_prototype_functions_def new_Set_def shared_check_def get_prop_def enum_set_def)

subsection \<open>Enum widening\<close>

lemma get_prop_cong: "map_of P k = map_of Q k \<Longrightarrow> get_prop P k = get_prop Q k"
  by (simp add: get_prop_def)

lemma enum_set_of_object:
  "map_of fs ''enum'' = Some (JArr vs) \<Longrightarrow> enum_set (Val (JObj fs)) = Inr (Some (new_Set vs))"
  by (simp add: enum_set_def get_prop_def)

lemma widening_superset:
  assumes "list_all literal oe" "set oe \<subseteq> set ne"
  shows "list_all (set_has (new_Set ne)) (new_Set oe)"
proof -
  have "set_has (new_Set ne) v" if "v \<in> set oe" for v
  proof -
    from that assms(1) have "literal v" by (simp add: list_all_iff)
    moreover from that assms(2) have "v \<in> set ne" by blast
    ultimately show ?thesis by (simp add: set_has_iff set_new_Set)
  qed
  then show ?thesis by (simp add: list_all_iff set_new_Set)
qed

lemma widening_size:
  assumes "list_all literal oe" "set oe \<subseteq> set ne"
  shows "length (new_Set oe) \<le> length (new_Set ne)"
proof -
  have "length (new_Set oe) = card (set oe)"
    using assms(1) by (rule length_new_Set_literal)
  also have "\<dots> \<le> card (set ne)"
    using assms(2) by (simp add: card_mono)
  also have "\<dots> \<le> length (new_Set ne)"
    by (rule length_new_Set_ge)
  finally show ?thesis .
qed

lemma widening_continues:
  assumes "map_of oP k = Some (JObj ofs)" "map_of nP k = Some (JObj nfs)"
    and "map_of ofs ''enum'' = Some (JArr oe)" "map_of nfs ''enum'' = Some (JArr ne)"
    and "list_all literal oe" "set oe \<subseteq> set ne"
  shows "shared_check oP nP k = Inr False"
proof -
  have o: "get_prop oP k = Val (JObj ofs)" using assms(1) by (rule get_prop_own)
  have n: "get_prop nP k = Val (JObj nfs)" using assms(2) by (rule get_prop_own)
  have oe: "enum_set (Val (JObj ofs)) = Inr (Some (new_Set oe))"
    using assms(3) by (rule enum_set_of_object)
  have ne: "enum_set (Val (JObj nfs)) = Inr (Some (new_Set ne))"
    using assms(4) by (rule enum_set_of_object)
  have sup: "list_all (set_has (new_Set ne)) (new_Set oe)"
    using assms(5,6) by (rule widening_superset)
  have size: "length (new_Set oe) \<le> length (new_Set ne)"
    using assms(5,6) by (rule widening_size)
  show ?thesis
    by (simp add: shared_check_def o n oe ne sup size)
qed

lemma shared_check_cong:
  assumes "get_prop nP k = get_prop nP' k"
  shows "shared_check oP nP k = shared_check oP nP' k"
  unfolding shared_check_def assms by (rule refl)

lemma shared_scan_cong:
  assumes "\<And>k. shared_check oP nP k = shared_check oP nP' k"
  shows "shared_scan oP nP ks = shared_scan oP nP' ks"
proof (induction ks)
  case Nil
  show ?case by simp
next
  case (Cons k ks)
  show ?case unfolding shared_scan.simps assms Cons.IH by (rule refl)
qed

lemma classify_cong:
  assumes "keys (props_of newJs') = keys (props_of newJs)"
    and "required_of newJs' = required_of newJs"
    and "\<And>k. shared_check (props_of old) (props_of newJs) k
            = shared_check (props_of old) (props_of newJs') k"
  shows "classify (Some old) newJs = classify (Some old) newJs'"
proof -
  have "shared_scan (props_of old) (props_of newJs) (keys (props_of newJs))
      = shared_scan (props_of old) (props_of newJs') (keys (props_of newJs))"
    using assms(3) by (rule shared_scan_cong)
  then have scan: "shared_scan (props_of old) (props_of newJs') (keys (props_of newJs))
      = shared_scan (props_of old) (props_of newJs) (keys (props_of newJs))"
    by (rule sym)
  have has: "has_in (props_of newJs') = has_in (props_of newJs)"
    using assms(1) by (simp add: fun_eq_iff has_in_def)
  show ?thesis
    unfolding classify_def option.case Let_def assms(1) assms(2) has scan by (rule refl)
qed

text \<open>
  Claim C5.  Let a property \<open>k\<close> of both documents have an \<open>enum\<close> array in its
  old and in its new field schema, the values of the old array being literals (null,
  booleans, numbers, strings) that all occur in the new array.  Then the scan goes on
  past \<open>k\<close> without returning \<open>major\<close>, and the classification is the one the
  new document would get with the old field schema of \<open>k\<close> put back
  (\<open>restored\<close>): whatever the severity is, none of it comes from \<open>k\<close>.  The
  size test of the source follows from the inclusion.
\<close>

theorem enum_widening_does_not_escalate:
  assumes "map_of (props_of old) k = Some (JObj ofs)"
    and "map_of (props_of newJs) k = Some (JObj nfs)"
    and "map_of ofs ''enum'' = Some (JArr oe)"
    and "map_of nfs ''enum'' = Some (JArr ne)"
    and "list_all literal oe"
    and "set oe \<subseteq> set ne"
    and "keys (props_of restored) = keys (props_of newJs)"
    and "map_of (props_of restored) = (map_of (props_of newJs))(k \<mapsto> JObj ofs)"
    and "required_of restored = required_of newJs"
  shows "shared_check (props_of old) (props_of newJs) k = Inr False
    \<and> classify (Some old) newJs = classify (Some old) restored"
proof
  show widened: "shared_check (props_of old) (props_of newJs) k = Inr False"
    using assms(1-6) by (rule widening_continues)
  have same: "shared_check (props_of old) (props_of newJs) k'
      = shared_check (props_of old) (props_of restored) k'" for k'
  proof (cases "k' = k")
    case True
    from assms(8) have "map_of (props_of restored) k = Some (JObj ofs)" by simp
    then have "get_prop (props_of restored) k = get_prop (props_of old) k"
      using assms(1) by (simp add: get_prop_own)
    then have "shared_check (props_of old) (props_of restored) k = Inr False"
      by (simp add: shared_check_def)
    with widened True show ?thesis by simp
  next
    case False
    with assms(8) have "map_of (props_of restored) k' = map_of (props_of newJs) k'" by simp
    then have "get_prop (props_of newJs) k' = get_prop (props_of restored) k'"
      by (simp add: get_prop_def)
    then show ?thesis by (rule shared_check_cong)
  qed
  from assms(7) assms(9) same show "classify (Some old) newJs = classify (Some old) restored"
    by (rule classify_cong)
qed

theorem enum_widening_does_not_escalate_witness:
  "classify
     (Some \<lparr>doc_properties = Some [(''status'', JObj [(''type'', JStr ''string''),
               (''enum'', JArr [JStr ''A'', JStr ''B''])])], doc_required = None\<rparr>)
     \<lparr>doc_properties = Some [(''status'', JObj [(''type'', JStr ''string''),
               (''enum'', JArr [JStr ''A'', JStr ''B'', JStr ''C''])])], doc_required = None\<rparr>
   = Inr Sev_patch"
proof -
  let ?ofs = "[(''type'', JStr ''string''), (''enum'', JArr [JStr ''A'', JStr ''B''])]"
  let ?nfs = "[(''type'', JStr ''string''), (''enum'', JArr [JStr ''A'', JStr ''B'', JStr ''C''])]"
  let ?old = "\<lparr>doc_properties = Some [(''status'', JObj ?ofs)], doc_required = None\<rparr>"
  let ?new = "\<lparr>doc_properties = Some [(''status'', JObj ?nfs)], doc_required = None\<rparr>"
  have 1: "map_of (props_of ?old) ''status'' = Some (JObj ?ofs)" by (simp add: props_of_def)
  have 2: "map_of (props_of ?new) ''status'' = Some (JObj ?nfs)" by (simp add: props_of_def)
  have 3: "map_of ?ofs ''enum'' = Some (JArr [JStr ''A'', JStr ''B''])" by simp
  have 4: "map_of ?nfs ''enum'' = Some (JArr [JStr ''A'', JStr ''B'', JStr ''C''])" by simp
  have 5: "list_all literal [JStr ''A'', JStr ''B'']" by simp
  have 6: "set [JStr ''A'', JStr ''B''] \<subseteq> set [JStr ''A'', JStr ''B'', JStr ''C'']" by simp
  have 7: "keys (props_of ?old) = keys (props_of ?new)" by (simp add: props_of_def keys_def)
  have 8: "map_of (props_of ?old) = (map_of (props_of ?new))(''status'' \<mapsto> JObj ?ofs)"
    by (simp add: props_of_def)
  have 9: "required_of ?old = required_of ?new" by (simp add: required_of_def)
  from enum_widening_does_not_escalate [OF 1 2 3 4 5 6 7 8 9]
  have "classify (Some ?old) ?new = classify (Some ?old) ?old" by (rule conjunct2)
  also have "\<dots> = Inr Sev_patch" by (rule classify_same)
  finally show ?thesis .
qed


subsection \<open>Added properties\<close>

lemma unchanged_check:
  assumes "k \<in> set (keys oP) \<Longrightarrow> map_of nP k = map_of oP k"
    and "k \<notin> set (keys oP) \<Longrightarrow> \<not> inherited k"
  shows "shared_check oP nP k = Inr False"
proof (cases "k \<in> set (keys oP)")
  case True
  with assms(1) have "get_prop oP k = get_prop nP k" by (simp add: get_prop_def)
  then show ?thesis by (simp add: shared_check_def)
next
  case False
  with assms(2) have "\<not> has_in oP k" by (simp add: has_in_def)
  then show ?thesis by (simp add: shared_check_def)
qed

lemma unchanged_scan:
  assumes "\<And>k. k \<in> set ks \<Longrightarrow> k \<in> set (keys oP) \<Longrightarrow> map_of nP k = map_of oP k"
    and "\<And>k. k \<in> set ks \<Longrightarrow> k \<notin> set (keys oP) \<Longrightarrow> \<not> inherited k"
  shows "shared_scan oP nP ks = Inr False"
  using assms
proof (induction ks)
  case Nil
  show ?case by simp
next
  case (Cons k ks)
  have "shared_check oP nP k = Inr False"
    by (rule unchanged_check) (simp_all add: Cons.prems)
  moreover have "shared_scan oP nP ks = Inr False"
    by (rule Cons.IH) (simp_all add: Cons.prems)
  ultimately show ?case by simp
qed

text \<open>
  Claim C3, amended.  Let no property be removed, every property of the old document be
  unchanged in the new one, and the new document have added properties, none of them
  under a name that every object inherits.  Then the classification is \<open>major\<close> if
  some name of the new \<open>required\<close> is missing from the old \<open>required\<close>, or
  some added name is in the new \<open>required\<close>; otherwise it is \<open>minor\<close>.
\<close>

theorem added_properties_rule:
  assumes kept: "set (keys (props_of old)) \<subseteq> set (keys (props_of newJs))"
    and unchanged: "\<forall>k \<in> set (keys (props_of old)). map_of (props_of newJs) k = map_of (props_of old) k"
    and added: "added = filter (\<lambda>k. k \<notin> set (keys (props_of old))) (keys (props_of newJs))"
    and nonempty: "added \<noteq> []"
    and own: "list_all (\<lambda>k. \<not> inherited k) added"
  shows "classify (Some old) newJs =
    Inr (if (\<exists>k \<in> set (required_of newJs). k \<notin> set (required_of old))
            \<or> (\<exists>k \<in> set added. k \<in> set (required_of newJs))
         then Sev_major else Sev_minor)"
proof -
  let ?oP = "props_of old" and ?nP = "props_of newJs"
  have removal: "list_ex (\<lambda>k. \<not> has_in ?nP k) (keys ?oP) = False"
    using kept by (auto simp: list_ex_iff has_in_def)
  have not_inh: "\<not> inherited k" if "k \<in> set (keys ?nP)" "k \<notin> set (keys ?oP)" for k
  proof -
    from that have "k \<in> set added" by (simp add: added)
    with own show ?thesis by (simp add: list_all_iff)
  qed
  have scan: "shared_scan ?oP ?nP (keys ?nP) = Inr False"
    by (rule unchanged_scan) (simp_all add: unchanged not_inh)
  have "(\<not> has_in ?oP k) = (k \<notin> set (keys ?oP))" if "k \<in> set (keys ?nP)" for k
    using that not_inh [of k] by (auto simp: has_in_def)
  then have filt: "filter (\<lambda>k. \<not> has_in ?oP k) (keys ?nP) = added"
    unfolding added by (intro filter_cong refl)
  have req: "list_ex (\<lambda>k. \<not> set_has (new_Set (map JStr (required_of old))) k)
        (new_Set (map JStr (required_of newJs)))
      = (\<exists>k \<in> set (required_of newJs). k \<notin> set (required_of old))"
    by (rule newly_required_iff)
  have addreq: "list_ex (\<lambda>k. set_has (new_Set (map JStr (required_of newJs))) (JStr k)) added
      = (\<exists>k \<in> set added. k \<in> set (required_of newJs))"
    by (simp add: list_ex_iff set_has_required)
  show ?thesis
    unfolding classify_def option.case Let_def removal scan req filt addreq
    using nonempty by simp
qed

theorem added_properties_rule_witness:
  "classify
     (Some \<lparr>doc_properties = Some [(''id'', JObj [(''type'', JStr ''string'')])],
            doc_required = Some [''id'']\<rparr>)
     \<lparr>doc_properties = Some [(''id'', JObj [(''type'', JStr ''string'')]),
                             (''note'', JObj [(''type'', JStr ''string'')])],
      doc_required = Some [''id'']\<rparr>
   = Inr Sev_minor"
proof -
  let ?old = "\<lparr>doc_properties = Some [(''id'', JObj [(''type'', JStr ''string'')])],
            doc_required = Some [''id'']\<rparr>"
  let ?new = "\<lparr>doc_properties = Some [(''id'', JObj [(''type'', JStr ''string'')]),
                             (''note'', JObj [(''type'', JStr ''string'')])],
      doc_required = Some [''id'']\<rparr>"
  have 1: "set (keys (props_of ?old)) \<subseteq> set (keys (props_of ?new))"
    by (simp add: props_of_def keys_def)
  have 2: "\<forall>k \<in> set (keys (props_of ?old)). map_of (props_of ?new) k = map_of (props_of ?old) k"
    by (simp add: props_of_def keys_def)
  have 3: "[''note''] = filter (\<lambda>k. k \<notin> set (keys (props_of ?old))) (keys (props_of ?new))"
    by (simp add: props_of_def keys_def)
  have 4: "[''note''] \<noteq> []" by simp
  have 5: "list_all (\<lambda>k. \<not> inherited k) [''note'']"
    by (simp add: inherited_def object_prototype_functions_def)
  from added_properties_rule [OF 1 2 3 4 5] show ?thesis
    by (simp add: required_of_def)
qed

text \<open>
  Claim C3, as stated: under the first three conditions the classification is
  \<open>major\<close> if an added name is newly required, and \<open>minor\<close> otherwise.  Here
  \<open>note\<close> is added and is not required, nothing is removed or changed, and the
  classification is \<open>major\<close>, because the existing \<open>id\<close> became required.
\<close>

theorem added_property_with_newly_required_old_one:
  "set (keys [(''id'', JObj [])]) \<subseteq> set (keys [(''id'', JObj []), (''note'', JObj [])])
   \<and> map_of [(''id'', JObj []), (''note'', JObj [])] ''id'' = map_of [(''id'', JObj [])] ''id''
   \<and> filter (\<lambda>k. k \<notin> set (keys [(''id'', JObj [])])) (keys [(''id'', JObj []), (''note'', JObj [])])
       = [''note'']
   \<and> ''note'' \<notin> set [''id'']
   \<and> classify
       (Some \<lparr>doc_properties = Some [(''id'', JObj [])], doc_required = None\<rparr>)
       \<lparr>doc_properties = Some [(''id'', JObj []), (''note'', JObj [])],
        doc_required = Some [''id'']\<rparr>
     = Inr Sev_major"
  by (simp add: classify_def props_of_def required_of_def keys_def has_in_def inherited_def
      object_prototype_functions_def new_Set_def shared_check_def get_prop_def set_add_def
      set_has_def)


end
